theory Spec2Isabelle
  imports Complex_Main "HOL-Library.Log_Nat"
begin

section \<open>Data model (types.ts, as used by engine.ts and parser.ts)\<close>

text \<open>
  The repository's \<^verbatim>\<open>types.ts\<close> only declares types. The four headings are the string
  literals \<^verbatim>\<open>'N' | 'E' | 'S' | 'W'\<close>; positions and plateau bounds are JavaScript numbers.
  The parser only lets integral numbers through, so coordinates are modelled as unbounded
  integers; JavaScript computes on doubles, which agree with the integers as long as the
  magnitudes stay below \<open>2 ^ 53\<close>.

  Strings are lists of 8-bit characters. The model is exact on ASCII text: a character
  above U+007F is treated as an ordinary character that is neither white space nor a letter.
\<close>

datatype Direction = N | E | S | W

record Position =
  x :: int
  y :: int

record RoverState =
  position :: Position
  direction :: Direction

record Plateau =
  maxX :: int
  maxY :: int

record RoverInput =
  start :: RoverState
  commands :: string

record ParsedInput =
  plateau :: Plateau
  rovers :: "RoverInput list"

text \<open>
  Every \<^verbatim>\<open>throw new Error(...)\<close> of the parser is one constructor, carrying the values
  that the message interpolates. \<open>TypeError\<close> stands for the run-time error that JavaScript
  raises when \<^verbatim>\<open>undefined\<close> is destructured or dereferenced.
\<close>

datatype error =
    EmptyInput
  | TooFewLines
  | UnpairedLines
  | InvalidPlateauLine string
  | NotAValidInteger string string
  | NegativePlateau
  | InvalidPositionLine string
  | InvalidDirection string
  | OutsidePlateau int int int int
  | InvalidCommands string
  | TypeError

section \<open>The execution engine (engine.ts)\<close>

definition DIRECTIONS :: "Direction list" where
  "DIRECTIONS = [N, E, S, W]"

fun DIR_TO_NUM :: "Direction \<Rightarrow> nat" where
  "DIR_TO_NUM N = 0"
| "DIR_TO_NUM E = 1"
| "DIR_TO_NUM S = 2"
| "DIR_TO_NUM W = 3"

definition DELTAS :: "(int \<times> int) list" where
  "DELTAS = [(0, 1), (1, 0), (0, - 1), (- 1, 0)]"

text \<open>
  One iteration of the \<^verbatim>\<open>for\<close> loop on the local variables \<^verbatim>\<open>(x, y, dirNum)\<close>.
  \<^verbatim>\<open>DELTAS[dirNum]\<close> outside the table is \<^verbatim>\<open>undefined\<close>, and destructuring it throws.
\<close>

definition step :: "Plateau \<Rightarrow> int \<times> int \<times> nat \<Rightarrow> char \<Rightarrow> error + int \<times> int \<times> nat" where
  "step pl st cmd =
     (case st of (cx, cy, dirNum) \<Rightarrow>
        if cmd = CHR ''L'' then Inr (cx, cy, (dirNum + 3) mod 4)
        else if cmd = CHR ''R'' then Inr (cx, cy, (dirNum + 1) mod 4)
        else if cmd = CHR ''M'' then
          (if dirNum < length DELTAS then
             (case DELTAS ! dirNum of (dx, dy) \<Rightarrow>
                let newX = cx + dx; newY = cy + dy in
                if newX \<ge> 0 \<and> newX \<le> maxX pl \<and> newY \<ge> 0 \<and> newY \<le> maxY pl
                then Inr (newX, newY, dirNum)
                else Inr (cx, cy, dirNum))
           else Inl TypeError)
        else Inr (cx, cy, dirNum))"

fun loop :: "Plateau \<Rightarrow> int \<times> int \<times> nat \<Rightarrow> string \<Rightarrow> error + int \<times> int \<times> nat" where
  "loop pl st [] = Inr st"
| "loop pl st (cmd # cmds) =
     (case step pl st cmd of Inl e \<Rightarrow> Inl e | Inr st' \<Rightarrow> loop pl st' cmds)"

text \<open>
  The returned object reads \<^verbatim>\<open>DIRECTIONS[dirNum]\<close>; outside the table this is
  \<^verbatim>\<open>undefined\<close>, which is no \<open>Direction\<close>, so the model reports it as an error.
\<close>

definition executeCommands :: "RoverState \<Rightarrow> string \<Rightarrow> Plateau \<Rightarrow> error + RoverState" where
  "executeCommands st cmds pl =
     (case loop pl (x (position st), y (position st), DIR_TO_NUM (direction st)) cmds of
        Inl e \<Rightarrow> Inl e
      | Inr (fx, fy, dirNum) \<Rightarrow>
          if dirNum < length DIRECTIONS
          then Inr \<lparr>position = \<lparr>x = fx, y = fy\<rparr>, direction = DIRECTIONS ! dirNum\<rparr>
          else Inl TypeError)"

subsection \<open>The move of the specification\<close>





fun spec_turnLeft :: "Direction \<Rightarrow> Direction" where
  "spec_turnLeft N = W"
| "spec_turnLeft W = S"
| "spec_turnLeft S = E"
| "spec_turnLeft E = N"

fun spec_turnRight :: "Direction \<Rightarrow> Direction" where
  "spec_turnRight N = E"
| "spec_turnRight E = S"
| "spec_turnRight S = W"
| "spec_turnRight W = N"

section \<open>JavaScript's string primitives\<close>

text \<open>
  White space as \<^verbatim>\<open>String.prototype.trim\<close> and the regular expression class
  \<^verbatim>\<open>\s\<close> see it, on ASCII: tab, line feed, vertical tab, form feed, carriage return and
  space.
\<close>

definition isWhiteSpace :: "char \<Rightarrow> bool" where
  "isWhiteSpace c \<longleftrightarrow> c \<in> set [CHR 0x09, CHR 0x0A, CHR 0x0B, CHR 0x0C, CHR 0x0D, CHR 0x20]"

definition trim :: "string \<Rightarrow> string" where
  "trim s = rev (dropWhile isWhiteSpace (rev (dropWhile isWhiteSpace s)))"

text \<open>
  \<^verbatim>\<open>s.split(sep)\<close> for a one-character separator: the pieces between the separators,
  empty pieces included; the empty string gives one empty piece.
\<close>

fun split_from :: "char \<Rightarrow> string \<Rightarrow> string \<Rightarrow> string list" where
  "split_from sep piece [] = [rev piece]"
| "split_from sep piece (c # cs) =
     (if c = sep then rev piece # split_from sep [] cs else split_from sep (c # piece) cs)"

definition split :: "char \<Rightarrow> string \<Rightarrow> string list" where
  "split sep s = split_from sep [] s"

text \<open>
  \<^verbatim>\<open>s.split(/\s+/)\<close>: the pieces between the maximal runs of white space. A run at the
  start or at the end of the string leaves an empty piece before or after it. The flag
  says that the previous character belonged to a run, which the greedy match has consumed.
\<close>

fun split_ws_from :: "bool \<Rightarrow> string \<Rightarrow> string \<Rightarrow> string list" where
  "split_ws_from inRun piece [] = [rev piece]"
| "split_ws_from inRun piece (c # cs) =
     (if isWhiteSpace c
      then (if inRun then split_ws_from True [] cs else rev piece # split_ws_from True [] cs)
      else split_ws_from False (c # piece) cs)"

definition split_ws :: "string \<Rightarrow> string list" where
  "split_ws s = split_ws_from False [] s"

definition toUpperCase :: "string \<Rightarrow> string" where
  "toUpperCase s =
     map (\<lambda>c. case map_of (zip ''abcdefghijklmnopqrstuvwxyz'' ''ABCDEFGHIJKLMNOPQRSTUVWXYZ'') c of
                 None \<Rightarrow> c | Some u \<Rightarrow> u) s"

section \<open>JavaScript's \<^verbatim>\<open>Number(string)\<close>\<close>

text \<open>
  A Number is NaN, an infinity, or a finite double, kept as the rational it denotes
  (\<open>-0\<close> and \<open>+0\<close> are not told apart: the parser compares, adds and prints them alike).
\<close>

datatype jsnum = NaN | PosInfinity | NegInfinity | Finite rat

definition int_power :: "rat \<Rightarrow> int \<Rightarrow> rat" where
  "int_power b k = (if 0 \<le> k then b ^ nat k else 1 / b ^ nat (- k))"

text \<open>The exponent \<open>e\<close> with \<open>2 ^ e \<le> q < 2 ^ (e + 1)\<close>, for a positive rational.\<close>

definition binaryExponent :: "rat \<Rightarrow> int" where
  "binaryExponent q =
     (case quotient_of q of (a, b) \<Rightarrow>
        let d = bitlen a - bitlen b in if int_power 2 d \<le> q then d else d - 1)"

definition roundHalfEven :: "rat \<Rightarrow> int" where
  "roundHalfEven q =
     (let f = \<lfloor>q\<rfloor>; r = q - of_int f in
      if r < 1 / 2 then f else if 1 / 2 < r then f + 1 else if even f then f else f + 1)"

text \<open>
  The Number value for a mathematical value: the nearest double, ties to the even
  significand. A double is \<open>n * 2 ^ (e - 52)\<close> with a significand \<open>n\<close> of at most 53
  bits and \<open>- 1022 \<le> e \<le> 1023\<close>; below \<open>2 ^ (- 1022)\<close> the spacing stays
  \<open>2 ^ (- 1074)\<close>. Rounding may carry the significand to \<open>2 ^ 53\<close>, which is the
  next power of two. The largest double is \<open>(2 ^ 53 - 1) * 2 ^ 971\<close>: the result is an
  infinity when \<open>e\<close> exceeds 1023, or when the significand carries at \<open>e = 1023\<close>.
  For a literal of more than twenty significant digits ECMAScript lets an engine round
  after the twentieth digit; the model rounds the exact value, as V8 does.
\<close>

definition roundToDouble :: "rat \<Rightarrow> jsnum" where
  "roundToDouble q =
     (if q = 0 then Finite 0
      else
        let e = max (binaryExponent \<bar>q\<bar>) (- 1022);
            n = roundHalfEven (\<bar>q\<bar> / int_power 2 (e - 52))
        in if 1023 < e \<or> (e = 1023 \<and> n = 2 ^ 53)
           then (if q < 0 then NegInfinity else PosInfinity)
           else Finite ((if q < 0 then - 1 else 1) * of_int n * int_power 2 (e - 52)))"

definition digitValue :: "char \<Rightarrow> nat option" where
  "digitValue c = map_of (zip ''0123456789abcdefABCDEF'' ([0..<16] @ [10..<16])) c"

definition digitsIn :: "nat \<Rightarrow> string \<Rightarrow> bool" where
  "digitsIn base ds \<longleftrightarrow>
     ds \<noteq> [] \<and> list_all (\<lambda>c. case digitValue c of None \<Rightarrow> False | Some v \<Rightarrow> v < base) ds"

definition valueIn :: "nat \<Rightarrow> string \<Rightarrow> int" where
  "valueIn base ds =
     foldl (\<lambda>acc c. acc * int base + (case digitValue c of None \<Rightarrow> 0 | Some v \<Rightarrow> int v)) 0 ds"

definition isDecimalDigit :: "char \<Rightarrow> bool" where
  "isDecimalDigit c \<longleftrightarrow> c \<in> set ''0123456789''"

text \<open>
  The grammar of StringNumericLiteral. \<open>nonDecimalIntegerLiteral\<close>: \<^verbatim>\<open>0x\<close>, \<^verbatim>\<open>0o\<close>,
  \<^verbatim>\<open>0b\<close> (either case) followed by one or more digits of the base, with no sign.
\<close>

definition nonDecimalIntegerLiteral :: "string \<Rightarrow> int option" where
  "nonDecimalIntegerLiteral s =
     (case s of
        z # p # ds \<Rightarrow>
          if z = CHR ''0'' then
            (if p = CHR ''x'' \<or> p = CHR ''X'' then (if digitsIn 16 ds then Some (valueIn 16 ds) else None)
             else if p = CHR ''o'' \<or> p = CHR ''O'' then (if digitsIn 8 ds then Some (valueIn 8 ds) else None)
             else if p = CHR ''b'' \<or> p = CHR ''B'' then (if digitsIn 2 ds then Some (valueIn 2 ds) else None)
             else None)
          else None
      | _ \<Rightarrow> None)"

text \<open>
  \<open>exponentPart\<close>: nothing (exponent 0), or \<^verbatim>\<open>e\<close>/\<^verbatim>\<open>E\<close>, an optional sign and one or
  more decimal digits; \<open>None\<close> for anything else.
\<close>

definition exponentPart :: "string \<Rightarrow> int option" where
  "exponentPart s =
     (case s of
        [] \<Rightarrow> Some 0
      | c # r \<Rightarrow>
          if c = CHR ''e'' \<or> c = CHR ''E'' then
            (case r of
               [] \<Rightarrow> None
             | sg # ds \<Rightarrow>
                 if sg = CHR ''+'' then (if digitsIn 10 ds then Some (valueIn 10 ds) else None)
                 else if sg = CHR ''-'' then (if digitsIn 10 ds then Some (- valueIn 10 ds) else None)
                 else if digitsIn 10 r then Some (valueIn 10 r) else None)
          else None)"

text \<open>
  \<open>strUnsignedDecimalLiteral\<close>: \<^verbatim>\<open>Infinity\<close>, or digits with an optional fraction and
  exponent, where the integer part or the fraction (not both) may be missing. Its
  mathematical value is the digits read as one integer, scaled by ten to the exponent
  minus the number of fraction digits.
\<close>

definition strUnsignedDecimalLiteral :: "string \<Rightarrow> jsnum" where
  "strUnsignedDecimalLiteral s =
     (if s = ''Infinity'' then PosInfinity
      else
        let ip = takeWhile isDecimalDigit s;
            r1 = dropWhile isDecimalDigit s;
            hasDot = (case r1 of [] \<Rightarrow> False | c # _ \<Rightarrow> c = CHR ''.'');
            fp = (if hasDot then takeWhile isDecimalDigit (tl r1) else []);
            r2 = (if hasDot then dropWhile isDecimalDigit (tl r1) else r1)
        in if ip = [] \<and> fp = [] then NaN
           else (case exponentPart r2 of
                   None \<Rightarrow> NaN
                 | Some e \<Rightarrow>
                     roundToDouble (of_int (valueIn 10 (ip @ fp)) * int_power 10 (e - int (length fp)))))"

fun negate :: "jsnum \<Rightarrow> jsnum" where
  "negate NaN = NaN"
| "negate PosInfinity = NegInfinity"
| "negate NegInfinity = PosInfinity"
| "negate (Finite q) = Finite (- q)"

definition strDecimalLiteral :: "string \<Rightarrow> jsnum" where
  "strDecimalLiteral s =
     (case s of
        [] \<Rightarrow> NaN
      | c # r \<Rightarrow>
          if c = CHR ''+'' then strUnsignedDecimalLiteral r
          else if c = CHR ''-'' then negate (strUnsignedDecimalLiteral r)
          else strUnsignedDecimalLiteral s)"

text \<open>
  \<^verbatim>\<open>Number(s)\<close>: white space around the literal is dropped, the empty string is \<open>0\<close>,
  and a string outside the grammar is NaN.
\<close>

definition Number :: "string \<Rightarrow> jsnum" where
  "Number s =
     (let t = trim s in
      if t = [] then Finite 0
      else (case nonDecimalIntegerLiteral t of
              Some n \<Rightarrow> roundToDouble (of_int n)
            | None \<Rightarrow> strDecimalLiteral t))"

fun Number_isInteger :: "jsnum \<Rightarrow> bool" where
  "Number_isInteger (Finite q) = (of_int \<lfloor>q\<rfloor> = q)"
| "Number_isInteger _ = False"

fun isNaN :: "jsnum \<Rightarrow> bool" where
  "isNaN NaN = True"
| "isNaN _ = False"

text \<open>The integer that an integral Number is, for the coordinates of the data model.\<close>

fun toInt :: "jsnum \<Rightarrow> int" where
  "toInt (Finite q) = \<lfloor>q\<rfloor>"
| "toInt _ = 0"

section \<open>The parser (parser.ts)\<close>

text \<open>
  The set of the four heading letters; each is paired with the \<open>Direction\<close> that the
  cast \<^verbatim>\<open>direction as Direction\<close> reads it as, so that \<^verbatim>\<open>has\<close> is a lookup of the key.
\<close>

definition VALID_DIRECTIONS :: "(string \<times> Direction) list" where
  "VALID_DIRECTIONS = [(''N'', N), (''E'', E), (''S'', S), (''W'', W)]"

text \<open>\<^verbatim>\<open>/^[LRM]+$/.test(s)\<close>: one or more characters, each of them \<open>L\<close>, \<open>R\<close> or \<open>M\<close>.\<close>

definition VALID_COMMANDS :: "string \<Rightarrow> bool" where
  "VALID_COMMANDS s \<longleftrightarrow> s \<noteq> [] \<and> list_all (\<lambda>c. c = CHR ''L'' \<or> c = CHR ''R'' \<or> c = CHR ''M'') s"

definition parseInteger :: "string \<Rightarrow> string \<Rightarrow> error + int" where
  "parseInteger val fieldName =
     (let num = Number val in
      if \<not> Number_isInteger num \<or> isNaN num then Inl (NotAValidInteger fieldName val)
      else Inr (toInt num))"

definition parseCommands :: "string \<Rightarrow> error + string" where
  "parseCommands line =
     (let cmds = toUpperCase line in
      if \<not> VALID_COMMANDS cmds then Inl (InvalidCommands line) else Inr cmds)"

definition parsePosition :: "string \<Rightarrow> Plateau \<Rightarrow> error + RoverState" where
  "parsePosition line pl =
     (let parts = split_ws line in
      if length parts \<noteq> 3 then Inl (InvalidPositionLine line)
      else
        (case parseInteger (parts ! 0) ''x coordinate'' of
           Inl e \<Rightarrow> Inl e
         | Inr px \<Rightarrow>
             (case parseInteger (parts ! 1) ''y coordinate'' of
                Inl e \<Rightarrow> Inl e
              | Inr py \<Rightarrow>
                  let dir = toUpperCase (parts ! 2) in
                  (case map_of VALID_DIRECTIONS dir of
                     None \<Rightarrow> Inl (InvalidDirection dir)
                   | Some d \<Rightarrow>
                       if px < 0 \<or> px > maxX pl \<or> py < 0 \<or> py > maxY pl
                       then Inl (OutsidePlateau px py (maxX pl) (maxY pl))
                       else Inr \<lparr>position = \<lparr>x = px, y = py\<rparr>, direction = d\<rparr>))))"

definition parsePlateau :: "string \<Rightarrow> error + Plateau" where
  "parsePlateau line =
     (let parts = split_ws line in
      if length parts \<noteq> 2 then Inl (InvalidPlateauLine line)
      else
        (case parseInteger (parts ! 0) ''plateau maxX'' of
           Inl e \<Rightarrow> Inl e
         | Inr mx \<Rightarrow>
             (case parseInteger (parts ! 1) ''plateau maxY'' of
                Inl e \<Rightarrow> Inl e
              | Inr my \<Rightarrow>
                  if mx < 0 \<or> my < 0 then Inl NegativePlateau
                  else Inr \<lparr>maxX = mx, maxY = my\<rparr>)))"

text \<open>
  The lines that \<open>parseInput\<close> works on: the trimmed input, split at line feeds, every
  line trimmed, and the empty ones dropped.
\<close>

definition inputLines :: "string \<Rightarrow> string list" where
  "inputLines input = filter (\<lambda>line. length line > 0) (map trim (split (CHR 0x0A) (trim input)))"

text \<open>
  The loop over the pairs of lines after the plateau line. It reads \<^verbatim>\<open>lines[i]\<close> and
  \<^verbatim>\<open>lines[i + 1]\<close>; with a single line left, the second is \<^verbatim>\<open>undefined\<close>, and
  \<open>parseCommands\<close> would throw on it once the position has been parsed.
\<close>

fun parseRovers :: "Plateau \<Rightarrow> string list \<Rightarrow> error + RoverInput list" where
  "parseRovers pl [] = Inr []"
| "parseRovers pl [positionLine] =
     (case parsePosition positionLine pl of Inl e \<Rightarrow> Inl e | Inr st \<Rightarrow> Inl TypeError)"
| "parseRovers pl (positionLine # commandsLine # rest) =
     (case parsePosition positionLine pl of
        Inl e \<Rightarrow> Inl e
      | Inr st \<Rightarrow>
          (case parseCommands commandsLine of
             Inl e \<Rightarrow> Inl e
           | Inr cmds \<Rightarrow>
               (case parseRovers pl rest of
                  Inl e \<Rightarrow> Inl e
                | Inr rs \<Rightarrow> Inr (\<lparr>start = st, commands = cmds\<rparr> # rs))))"

text \<open>
  The body of \<open>parseInput\<close> once \<^verbatim>\<open>lines\<close> has been computed: the three structural
  checks, the plateau line, then the rover lines from index 1 on.
\<close>

definition parseLines :: "string list \<Rightarrow> error + ParsedInput" where
  "parseLines lines =
     (if length lines < 1 then Inl EmptyInput
      else if length lines < 3 then Inl TooFewLines
      else if (length lines - 1) mod 2 \<noteq> 0 then Inl UnpairedLines
      else
        (case parsePlateau (lines ! 0) of
           Inl e \<Rightarrow> Inl e
         | Inr pl \<Rightarrow>
             (case parseRovers pl (tl lines) of
                Inl e \<Rightarrow> Inl e
              | Inr rs \<Rightarrow> Inr \<lparr>plateau = pl, rovers = rs\<rparr>)))"

definition parseInput :: "string \<Rightarrow> error + ParsedInput" where
  "parseInput input = parseLines (inputLines input)"

section \<open>The formatter (format.ts) and the pipeline of the page\<close>

text \<open>
  A template literal prints an integral Number below \<open>10 ^ 21\<close> in magnitude as its
  decimal digits, with a minus sign when negative.
\<close>

fun decimalDigits :: "nat \<Rightarrow> string" where
  "decimalDigits n =
     (if n < 10 then [''0123456789'' ! n]
      else decimalDigits (n div 10) @ [''0123456789'' ! (n mod 10)])"

definition numberToString :: "int \<Rightarrow> string" where
  "numberToString i = (if i < 0 then CHR ''-'' # decimalDigits (nat (- i)) else decimalDigits (nat i))"

fun directionToString :: "Direction \<Rightarrow> string" where
  "directionToString N = ''N''"
| "directionToString E = ''E''"
| "directionToString S = ''S''"
| "directionToString W = ''W''"

fun join :: "string \<Rightarrow> string list \<Rightarrow> string" where
  "join sep [] = []"
| "join sep [s] = s"
| "join sep (s # t # ts) = s @ sep @ join sep (t # ts)"

definition formatOutput :: "RoverState list \<Rightarrow> string" where
  "formatOutput states =
     join [CHR 0x0A]
       (map (\<lambda>st. numberToString (x (position st)) @ '' '' @ numberToString (y (position st))
                    @ '' '' @ directionToString (direction st)) states)"

text \<open>
  The pipeline of \<^verbatim>\<open>page.tsx\<close> and of the integration tests: parse, run
  \<open>executeCommands\<close> on every rover in input order, format the final states.
\<close>

fun executeAll :: "Plateau \<Rightarrow> RoverInput list \<Rightarrow> error + RoverState list" where
  "executeAll pl [] = Inr []"
| "executeAll pl (r # rs) =
     (case executeCommands (start r) (commands r) pl of
        Inl e \<Rightarrow> Inl e
      | Inr st \<Rightarrow> (case executeAll pl rs of Inl e \<Rightarrow> Inl e | Inr sts \<Rightarrow> Inr (st # sts)))"

definition runSimulation :: "string \<Rightarrow> error + string" where
  "runSimulation input =
     (case parseInput input of
        Inl e \<Rightarrow> Inl e
      | Inr parsed \<Rightarrow>
          (case executeAll (plateau parsed) (rovers parsed) of
             Inl e \<Rightarrow> Inl e
           | Inr finalStates \<Rightarrow> Inr (formatOutput finalStates)))"

section \<open>Properties of the engine\<close>

lemma DIR_TO_NUM_less: "DIR_TO_NUM d < 4"
  by (cases d) simp_all

lemma DIRECTIONS_DIR_TO_NUM: "DIRECTIONS ! DIR_TO_NUM d = d"
  by (cases d) (simp_all add: DIRECTIONS_def)

lemma DIR_TO_NUM_DIRECTIONS: "n < 4 \<Longrightarrow> DIR_TO_NUM (DIRECTIONS ! n) = n"
proof -
  assume "n < 4"
  then consider "n = 0" | "n = 1" | "n = 2" | "n = 3" by linarith
  then show ?thesis by cases (simp_all add: DIRECTIONS_def)
qed

lemma step_dir:
  assumes "n < 4"
  shows "\<exists>a' b' n'. step pl (a, b, n) c = Inr (a', b', n') \<and> n' < 4"
  using assms by (auto simp: step_def DELTAS_def Let_def split: prod.splits)

lemma loop_dir:
  assumes "n < 4"
  shows "\<exists>a' b' n'. loop pl (a, b, n) cs = Inr (a', b', n') \<and> n' < 4"
  using assms
proof (induction cs arbitrary: a b n)
  case Nil
  then show ?case by simp
next
  case (Cons c cs)
  from step_dir [OF Cons.prems, of pl a b c]
  obtain a' b' n' where s: "step pl (a, b, n) c = Inr (a', b', n')" and n': "n' < 4"
    by blast
  from Cons.IH [OF n'] s show ?case by simp
qed

lemma loop_append:
  "loop pl st (as @ bs) = (case loop pl st as of Inl e \<Rightarrow> Inl e | Inr st' \<Rightarrow> loop pl st' bs)"
  by (induction as arbitrary: st) (simp_all split: sum.splits)

lemma executeCommands_loop:
  "\<exists>a b n. loop pl (x (position st), y (position st), DIR_TO_NUM (direction st)) cs = Inr (a, b, n)
      \<and> n < 4 \<and> executeCommands st cs pl = Inr \<lparr>position = \<lparr>x = a, y = b\<rparr>, direction = DIRECTIONS ! n\<rparr>"
proof -
  from loop_dir [OF DIR_TO_NUM_less]
  obtain a b n where
    l: "loop pl (x (position st), y (position st), DIR_TO_NUM (direction st)) cs = Inr (a, b, n)"
    and n: "n < 4" by blast
  then show ?thesis by (simp add: executeCommands_def DIRECTIONS_def)
qed

lemma executeCommands_append:
  "executeCommands st (as @ bs) pl =
     (case executeCommands st as pl of Inl e \<Rightarrow> Inl e | Inr st' \<Rightarrow> executeCommands st' bs pl)"
proof -
  from executeCommands_loop [of pl st as]
  obtain a b n where
    l: "loop pl (x (position st), y (position st), DIR_TO_NUM (direction st)) as = Inr (a, b, n)"
    and n: "n < 4"
    and e: "executeCommands st as pl = Inr \<lparr>position = \<lparr>x = a, y = b\<rparr>, direction = DIRECTIONS ! n\<rparr>"
    by blast
  show ?thesis
    by (simp add: e) (simp add: executeCommands_def loop_append l DIR_TO_NUM_DIRECTIONS [OF n])
qed

lemma executeCommands_Nil: "executeCommands st [] pl = Inr st"
  using executeCommands_loop [of pl st "[]"] by (auto simp: DIRECTIONS_DIR_TO_NUM)

lemma step_on_plateau:
  assumes "0 \<le> a" "a \<le> maxX pl" "0 \<le> b" "b \<le> maxY pl"
    and "step pl (a, b, n) c = Inr (a', b', n')"
  shows "0 \<le> a' \<and> a' \<le> maxX pl \<and> 0 \<le> b' \<and> b' \<le> maxY pl"
  using assms by (auto simp: step_def Let_def split: if_splits prod.splits)

lemma loop_on_plateau:
  assumes "0 \<le> a" "a \<le> maxX pl" "0 \<le> b" "b \<le> maxY pl"
    and "loop pl (a, b, n) cs = Inr (a', b', n')"
  shows "0 \<le> a' \<and> a' \<le> maxX pl \<and> 0 \<le> b' \<and> b' \<le> maxY pl"
  using assms
proof (induction cs arbitrary: a b n)
  case Nil
  then show ?case by simp
next
  case (Cons c cs)
  from Cons.prems(5) obtain a1 b1 n1 where
    s: "step pl (a, b, n) c = Inr (a1, b1, n1)" and l: "loop pl (a1, b1, n1) cs = Inr (a', b', n')"
    by (auto split: sum.splits)
  from step_on_plateau [OF Cons.prems(1-4) s]
  have "0 \<le> a1" "a1 \<le> maxX pl" "0 \<le> b1" "b1 \<le> maxY pl" by simp_all
  from Cons.IH [OF this l] show ?case .
qed

text \<open>
  C1. Boundary containment: from a start position with \<open>0 \<le> x \<le> maxX\<close> and
  \<open>0 \<le> y \<le> maxY\<close>, \<open>executeCommands\<close> returns, for every command string, a final state
  whose position satisfies the same bounds.
\<close>

theorem executeCommands_stays_on_plateau:
  assumes "0 \<le> x (position st)" and "x (position st) \<le> maxX pl"
    and "0 \<le> y (position st)" and "y (position st) \<le> maxY pl"
  shows "\<exists>st'. executeCommands st cmds pl = Inr st'
           \<and> 0 \<le> x (position st') \<and> x (position st') \<le> maxX pl
           \<and> 0 \<le> y (position st') \<and> y (position st') \<le> maxY pl"
proof -
  from executeCommands_loop [of pl st cmds]
  obtain a b n where
    l: "loop pl (x (position st), y (position st), DIR_TO_NUM (direction st)) cmds = Inr (a, b, n)"
    and e: "executeCommands st cmds pl = Inr \<lparr>position = \<lparr>x = a, y = b\<rparr>, direction = DIRECTIONS ! n\<rparr>"
    by blast
  from loop_on_plateau [OF assms l] e show ?thesis by simp
qed

theorem executeCommands_stays_on_plateau_witness:
  "executeCommands \<lparr>position = \<lparr>x = 0, y = 0\<rparr>, direction = N\<rparr> ''MMMRMMM'' \<lparr>maxX = 2, maxY = 2\<rparr>
     = Inr \<lparr>position = \<lparr>x = 2, y = 2\<rparr>, direction = E\<rparr>
   \<and> (\<exists>st'. executeCommands \<lparr>position = \<lparr>x = 0, y = 0\<rparr>, direction = N\<rparr> ''MMMRMMM'' \<lparr>maxX = 2, maxY = 2\<rparr> = Inr st'
           \<and> 0 \<le> x (position st') \<and> x (position st') \<le> 2 \<and> 0 \<le> y (position st') \<and> y (position st') \<le> 2)"
  using executeCommands_stays_on_plateau
    [of "\<lparr>position = \<lparr>x = 0, y = 0\<rparr>, direction = N\<rparr>" "\<lparr>maxX = 2, maxY = 2\<rparr>" "''MMMRMMM''"]
  by (simp add: executeCommands_def step_def DELTAS_def DIRECTIONS_def)

lemma executeCommands_single:
  "executeCommands st [c] pl =
     (case step pl (x (position st), y (position st), DIR_TO_NUM (direction st)) c of
        Inl e \<Rightarrow> Inl e
      | Inr (fx, fy, dirNum) \<Rightarrow>
          if dirNum < 4 then Inr \<lparr>position = \<lparr>x = fx, y = fy\<rparr>, direction = DIRECTIONS ! dirNum\<rparr>
          else Inl TypeError)"
  by (simp add: executeCommands_def DIRECTIONS_def split: sum.splits)


lemma executeCommands_Cons:
  "executeCommands st (c # cs) pl =
     (case executeCommands st [c] pl of Inl e \<Rightarrow> Inl e | Inr st' \<Rightarrow> executeCommands st' cs pl)"
  using executeCommands_append [of st "[c]" cs pl] by simp


lemma executeCommands_L:
  "executeCommands st ''L'' pl = Inr (st\<lparr>direction := spec_turnLeft (direction st)\<rparr>)"
  by (cases st; cases "direction st")
    (auto simp: executeCommands_single step_def DIRECTIONS_def)

lemma executeCommands_R:
  "executeCommands st ''R'' pl = Inr (st\<lparr>direction := spec_turnRight (direction st)\<rparr>)"
  by (cases st; cases "direction st")
    (auto simp: executeCommands_single step_def DIRECTIONS_def)

lemma executeCommands_L_Cons:
  "executeCommands st (CHR ''L'' # cs) pl
     = executeCommands (st\<lparr>direction := spec_turnLeft (direction st)\<rparr>) cs pl"
  using executeCommands_Cons [of st "CHR ''L''" cs pl] by (simp add: executeCommands_L)

lemma executeCommands_R_Cons:
  "executeCommands st (CHR ''R'' # cs) pl
     = executeCommands (st\<lparr>direction := spec_turnRight (direction st)\<rparr>) cs pl"
  using executeCommands_Cons [of st "CHR ''R''" cs pl] by (simp add: executeCommands_R)

lemma turnLeft_turnRight: "spec_turnLeft (spec_turnRight d) = d"
  by (cases d) simp_all

lemma turnRight_turnLeft: "spec_turnRight (spec_turnLeft d) = d"
  by (cases d) simp_all

lemma turnLeft4: "spec_turnLeft (spec_turnLeft (spec_turnLeft (spec_turnLeft d))) = d"
  by (cases d) simp_all

lemma turnRight4: "spec_turnRight (spec_turnRight (spec_turnRight (spec_turnRight d))) = d"
  by (cases d) simp_all

text \<open>
  C5. Turning left and turning right are mutual inverses (\<open>LR\<close> and \<open>RL\<close> restore the
  state), four equal turns are the identity (\<open>LLLL\<close>, \<open>RRRR\<close>), a single \<open>L\<close> steps the
  heading along North, West, South, East, North and a single \<open>R\<close> along the reverse
  cycle, and a turn never changes the position. The statement holds for every state and
  plateau.
\<close>

theorem turns_form_a_cycle:
  "executeCommands st ''LR'' pl = Inr st
   \<and> executeCommands st ''RL'' pl = Inr st
   \<and> executeCommands st ''LLLL'' pl = Inr st
   \<and> executeCommands st ''RRRR'' pl = Inr st
   \<and> executeCommands st ''L'' pl =
       Inr \<lparr>position = position st,
            direction = (case direction st of N \<Rightarrow> W | W \<Rightarrow> S | S \<Rightarrow> E | E \<Rightarrow> N)\<rparr>
   \<and> executeCommands st ''R'' pl =
       Inr \<lparr>position = position st,
            direction = (case direction st of N \<Rightarrow> E | E \<Rightarrow> S | S \<Rightarrow> W | W \<Rightarrow> N)\<rparr>"
proof -
  have 1: "executeCommands st ''LR'' pl = Inr st"
    by (simp add: executeCommands_L_Cons executeCommands_R turnRight_turnLeft executeCommands_Nil)
  have 2: "executeCommands st ''RL'' pl = Inr st"
    by (simp add: executeCommands_R_Cons executeCommands_L turnLeft_turnRight executeCommands_Nil)
  have 3: "executeCommands st ''LLLL'' pl = Inr st"
    by (simp add: executeCommands_L_Cons executeCommands_L turnLeft4 executeCommands_Nil)
  have 4: "executeCommands st ''RRRR'' pl = Inr st"
    by (simp add: executeCommands_R_Cons executeCommands_R turnRight4 executeCommands_Nil)
  have 5: "executeCommands st ''L'' pl =
       Inr \<lparr>position = position st,
            direction = (case direction st of N \<Rightarrow> W | W \<Rightarrow> S | S \<Rightarrow> E | E \<Rightarrow> N)\<rparr>"
    by (cases st; cases "direction st") (simp_all add: executeCommands_L)
  have 6: "executeCommands st ''R'' pl =
       Inr \<lparr>position = position st,
            direction = (case direction st of N \<Rightarrow> E | E \<Rightarrow> S | S \<Rightarrow> W | W \<Rightarrow> N)\<rparr>"
    by (cases st; cases "direction st") (simp_all add: executeCommands_R)
  from 1 2 3 4 5 6 show ?thesis by blast
qed

lemma executeCommands_other:
  assumes "c \<noteq> CHR ''L''" "c \<noteq> CHR ''R''" "c \<noteq> CHR ''M''"
  shows "executeCommands st [c] pl = Inr st"
  using assms DIR_TO_NUM_less [of "direction st"]
  by (cases st) (simp add: executeCommands_single step_def DIRECTIONS_DIR_TO_NUM)

text \<open>
  C9. \<open>executeCommands\<close> is total over arbitrary strings: it returns a state for every
  start state, plateau and string, and a character other than upper-case \<open>L\<close>, \<open>R\<close>, \<open>M\<close>
  is a no-op wherever it stands in the string.
\<close>

theorem executeCommands_total_skips_other:
  "(\<exists>st'. executeCommands st cmds pl = Inr st')
   \<and> (c \<noteq> CHR ''L'' \<and> c \<noteq> CHR ''R'' \<and> c \<noteq> CHR ''M'' \<longrightarrow>
        executeCommands st [c] pl = Inr st
        \<and> executeCommands st (before @ c # after) pl = executeCommands st (before @ after) pl)"
proof -
  have tot: "\<exists>st'. executeCommands st cmds pl = Inr st'"
    using executeCommands_loop [of pl st cmds] by blast
  have skip: "executeCommands st (before @ c # after) pl = executeCommands st (before @ after) pl"
    if "c \<noteq> CHR ''L''" "c \<noteq> CHR ''R''" "c \<noteq> CHR ''M''"
  proof -
    have "executeCommands s' (c # after) pl = executeCommands s' after pl" for s'
      using executeCommands_Cons [of s' c after pl] executeCommands_other [OF that, of s' pl]
      by simp
    then show ?thesis
      by (simp add: executeCommands_append [of st before] split: sum.splits)
  qed
  from tot skip executeCommands_other [of c st pl] show ?thesis by blast
qed

theorem executeCommands_total_skips_other_witness:
  "CHR ''m'' \<noteq> CHR ''L'' \<and> CHR ''m'' \<noteq> CHR ''R'' \<and> CHR ''m'' \<noteq> CHR ''M''
   \<and> executeCommands \<lparr>position = \<lparr>x = 1, y = 2\<rparr>, direction = N\<rparr> ''m'' \<lparr>maxX = 5, maxY = 5\<rparr>
       = Inr \<lparr>position = \<lparr>x = 1, y = 2\<rparr>, direction = N\<rparr>
   \<and> executeCommands \<lparr>position = \<lparr>x = 1, y = 2\<rparr>, direction = N\<rparr> ''LmM'' \<lparr>maxX = 5, maxY = 5\<rparr>
       = executeCommands \<lparr>position = \<lparr>x = 1, y = 2\<rparr>, direction = N\<rparr> ''LM'' \<lparr>maxX = 5, maxY = 5\<rparr>"
  using executeCommands_total_skips_other
    [of "\<lparr>position = \<lparr>x = 1, y = 2\<rparr>, direction = N\<rparr>" "''m''" "\<lparr>maxX = 5, maxY = 5\<rparr>"
        "CHR ''m''" "''L''" "''M''"]
  by simp

section \<open>Properties of the parser\<close>

subsection \<open>Rounding to a double\<close>











subsection \<open>Integer fields\<close>


lemma parseInteger_cases:
  "parseInteger v f =
     (if Number_isInteger (Number v) then Inr (toInt (Number v)) else Inl (NotAValidInteger f v))"
  by (cases "Number v") (simp_all add: parseInteger_def)

lemma parseInteger_Inr_iff: "parseInteger v f = Inr n \<longleftrightarrow> Number v = Finite (of_int n)"
proof (cases "Number v")
  case (Finite q)
  show ?thesis
  proof (cases "of_int \<lfloor>q\<rfloor> = q")
    case True
    then have "\<lfloor>q\<rfloor> = n \<longleftrightarrow> q = of_int n" by auto
    with True Finite show ?thesis by (simp add: parseInteger_cases)
  next
    case False
    then have "q \<noteq> of_int n" by auto
    with False Finite show ?thesis by (simp add: parseInteger_cases)
  qed
qed (simp_all add: parseInteger_cases)

lemma parseInteger_Inl: "parseInteger v f = Inl e \<Longrightarrow> e = NotAValidInteger f v"
  by (simp add: parseInteger_cases split: if_splits)

lemma Number_accepted_examples:
  "Number ''0x10'' = Finite 16" "Number ''1e3'' = Finite 1000"
  "Number ''+5'' = Finite 5" "Number ''2.0'' = Finite 2"
  by code_simp+


lemma plateau_and_position_examples:
  "parsePlateau ''0x10 1e3'' = Inr \<lparr>maxX = 16, maxY = 1000\<rparr>"
  "parsePosition ''+5 2.0 N'' \<lparr>maxX = 16, maxY = 1000\<rparr>
     = Inr \<lparr>position = \<lparr>x = 5, y = 2\<rparr>, direction = N\<rparr>"
  by code_simp+

text \<open>
  C10. \<open>parseInteger\<close> accepts exactly the strings whose \<^verbatim>\<open>Number()\<close> conversion is an
  integer, and returns that integer: besides \<open>2.0\<close> it accepts the hexadecimal \<open>0x10\<close>
  as 16, the scientific \<open>1e3\<close> as 1000 and the signed \<open>+5\<close> as 5, as plateau bounds
  and as rover coordinates.
\<close>

theorem parseInteger_accepts_what_Number_makes_integral:
  "(parseInteger v f = Inr n \<longleftrightarrow> Number v = Finite (of_int n))
   \<and> ((\<exists>m. parseInteger v f = Inr m) \<longleftrightarrow> (\<exists>m. Number v = Finite (of_int m)))
   \<and> parseInteger ''2.0'' f = Inr 2
   \<and> parseInteger ''0x10'' f = Inr 16
   \<and> parseInteger ''1e3'' f = Inr 1000
   \<and> parseInteger ''+5'' f = Inr 5
   \<and> parsePlateau ''0x10 1e3'' = Inr \<lparr>maxX = 16, maxY = 1000\<rparr>
   \<and> parsePosition ''+5 2.0 N'' \<lparr>maxX = 16, maxY = 1000\<rparr>
       = Inr \<lparr>position = \<lparr>x = 5, y = 2\<rparr>, direction = N\<rparr>"
  by (simp add: parseInteger_Inr_iff Number_accepted_examples plateau_and_position_examples)

theorem parseInteger_accepts_what_Number_makes_integral_witness:
  "Number ''0x10'' = Finite (of_int 16) \<and> parseInteger ''0x10'' ''plateau maxX'' = Inr 16"
  using parseInteger_accepts_what_Number_makes_integral [of "''0x10''" "''plateau maxX''" 16]
  by auto


lemma trim_unchanged:
  assumes "s \<noteq> []" and "\<not> isWhiteSpace (hd s)" and "\<not> isWhiteSpace (last s)"
  shows "trim s = s"
proof -
  from assms have 1: "dropWhile isWhiteSpace s = s" by (cases s) simp_all
  from assms have "dropWhile isWhiteSpace (rev s) = rev s"
    by (cases "rev s") (simp_all add: hd_rev)
  with 1 show ?thesis by (simp add: trim_def)
qed





text \<open>
  The fields that reach \<open>parseInteger\<close> are the pieces of a trimmed, non-empty line:
  none of them is empty or holds white space.
\<close>

lemma split_ws_from_fields:
  assumes "s = [] \<longrightarrow> piece \<noteq> []"
    and "s \<noteq> [] \<longrightarrow> \<not> isWhiteSpace (last s)"
    and "piece = [] \<and> \<not> inRun \<longrightarrow> s \<noteq> [] \<and> \<not> isWhiteSpace (hd s)"
    and "list_all (\<lambda>c. \<not> isWhiteSpace c) piece"
    and "p \<in> set (split_ws_from inRun piece s)"
  shows "p \<noteq> [] \<and> list_all (\<lambda>c. \<not> isWhiteSpace c) p"
  using assms
proof (induction s arbitrary: inRun piece)
  case Nil
  then show ?case by simp
next
  case (Cons c cs)
  show ?case
  proof (cases "isWhiteSpace c")
    case True
    with Cons.prems(2) have cs: "cs \<noteq> []" by auto
    with Cons.prems(2) have l: "\<not> isWhiteSpace (last cs)" by simp
    from True Cons.prems(3) have pr: "piece \<noteq> [] \<or> inRun" by auto
    from True Cons.prems(5) have "(p = rev piece \<and> \<not> inRun) \<or> p \<in> set (split_ws_from True [] cs)"
      by (auto split: if_splits)
    then show ?thesis
    proof
      assume "p = rev piece \<and> \<not> inRun"
      with pr Cons.prems(4) show ?thesis by simp
    next
      assume "p \<in> set (split_ws_from True [] cs)"
      with cs l show ?thesis by (intro Cons.IH [of "[]" True]) simp_all
    qed
  next
    case False
    with Cons.prems(5) have p: "p \<in> set (split_ws_from False (c # piece) cs)" by simp
    from Cons.prems(2) have "cs \<noteq> [] \<longrightarrow> \<not> isWhiteSpace (last cs)" by auto
    with False Cons.prems(4) p show ?thesis
      by (intro Cons.IH [of "c # piece" False]) simp_all
  qed
qed

lemma trim_ends:
  assumes "trim s \<noteq> []"
  shows "\<not> isWhiteSpace (hd (trim s)) \<and> \<not> isWhiteSpace (last (trim s))"
proof -
  let ?t = "dropWhile isWhiteSpace s"
  let ?u = "dropWhile isWhiteSpace (rev ?t)"
  from assms have u: "?u \<noteq> []" by (simp add: trim_def)
  have t: "?t \<noteq> []"
  proof
    assume a: "?t = []"
    have "?u = []" unfolding a by simp
    with u show False ..
  qed
  from u have 1: "\<not> isWhiteSpace (hd ?u)" by (rule hd_dropWhile)
  from t have 2: "\<not> isWhiteSpace (hd ?t)" by (rule hd_dropWhile)
  have "last ?u = last (rev ?t)"
    using u by (metis last_appendR takeWhile_dropWhile_id)
  with t have 3: "last ?u = hd ?t" by (simp add: last_rev)
  from u have "hd (trim s) = last ?u" "last (trim s) = hd ?u"
    by (simp_all add: trim_def hd_rev last_rev)
  with 1 2 3 show ?thesis by simp
qed

lemma inputLines_trimmed:
  assumes "l \<in> set (inputLines input)"
  shows "l \<noteq> [] \<and> \<not> isWhiteSpace (hd l) \<and> \<not> isWhiteSpace (last l)"
proof -
  from assms obtain s where "l = trim s" and "l \<noteq> []"
    by (auto simp: inputLines_def)
  with trim_ends [of s] show ?thesis by simp
qed

lemma fields_of_a_line:
  assumes "l \<in> set (inputLines input)" and "p \<in> set (split_ws l)"
  shows "p \<noteq> [] \<and> list_all (\<lambda>c. \<not> isWhiteSpace c) p \<and> trim p = p"
proof -
  from inputLines_trimmed [OF assms(1)]
  have l: "l \<noteq> []" "\<not> isWhiteSpace (hd l)" "\<not> isWhiteSpace (last l)" by simp_all
  from assms(2) have "p \<in> set (split_ws_from False [] l)" by (simp add: split_ws_def)
  with l have p: "p \<noteq> [] \<and> list_all (\<lambda>c. \<not> isWhiteSpace c) p"
    by (intro split_ws_from_fields [of l "[]" False]) simp_all
  then have "\<not> isWhiteSpace (hd p)" "\<not> isWhiteSpace (last p)"
    by (auto simp: list_all_iff)
  with p have "trim p = p" by (intro trim_unchanged) simp_all
  with p show ?thesis by simp
qed



subsection \<open>Which errors the line parsers raise\<close>

lemma parseCommands_Inl: "parseCommands l = Inl e \<Longrightarrow> e = InvalidCommands l"
  by (simp add: parseCommands_def Let_def split: if_splits)

lemma parsePosition_Inl:
  assumes "parsePosition l pl = Inl e"
  shows "e = InvalidPositionLine l \<or> (\<exists>f v. e = NotAValidInteger f v) \<or> (\<exists>d. e = InvalidDirection d)
    \<or> (\<exists>a b. e = OutsidePlateau a b (maxX pl) (maxY pl)
          \<and> (a < 0 \<or> a > maxX pl \<or> b < 0 \<or> b > maxY pl))"
  using assms
  by (auto simp: parsePosition_def Let_def
      split: if_splits sum.splits option.splits dest: parseInteger_Inl)

lemma parsePlateau_Inl:
  assumes "parsePlateau l = Inl e"
  shows "e = InvalidPlateauLine l \<or> (\<exists>f v. e = NotAValidInteger f v) \<or> e = NegativePlateau"
  using assms
  by (auto simp: parsePlateau_def Let_def split: if_splits sum.splits dest: parseInteger_Inl)

lemma parseRovers_Inl:
  assumes "parseRovers pl ls = Inl e"
  shows "(\<exists>l. e = InvalidPositionLine l) \<or> (\<exists>f v. e = NotAValidInteger f v)
    \<or> (\<exists>d. e = InvalidDirection d) \<or> (\<exists>l. e = InvalidCommands l) \<or> e = TypeError
    \<or> (\<exists>a b. e = OutsidePlateau a b (maxX pl) (maxY pl)
          \<and> (a < 0 \<or> a > maxX pl \<or> b < 0 \<or> b > maxY pl))"
  using assms
proof (induction pl ls rule: parseRovers.induct)
  case (1 pl)
  then show ?case by simp
next
  case (2 pl positionLine)
  then show ?case
    using parsePosition_Inl [of positionLine pl e] by (auto split: sum.splits)
next
  case (3 pl positionLine commandsLine rest)
  show ?case
  proof (cases "parsePosition positionLine pl")
    case (Inl e')
    with "3.prems" have "parsePosition positionLine pl = Inl e" by simp
    from parsePosition_Inl [OF this] show ?thesis by blast
  next
    case st: (Inr st)
    show ?thesis
    proof (cases "parseCommands commandsLine")
      case (Inl e')
      with st "3.prems" have "parseCommands commandsLine = Inl e" by simp
      from parseCommands_Inl [OF this] show ?thesis by blast
    next
      case cm: (Inr cmds)
      with st "3.prems" have "parseRovers pl rest = Inl e" by (simp split: sum.splits)
      from "3.IH" [OF st cm this] show ?thesis .
    qed
  qed
qed

lemma parseRovers_length: "parseRovers pl ls = Inr rs \<Longrightarrow> length ls = 2 * length rs"
  by (induction pl ls arbitrary: rs rule: parseRovers.induct) (auto split: sum.splits)

lemma parseRovers_append:
  assumes "parseRovers pl earlier = Inr rs"
  shows "parseRovers pl (earlier @ ls) =
    (case parseRovers pl ls of Inl e \<Rightarrow> Inl e | Inr rs' \<Rightarrow> Inr (rs @ rs'))"
  using assms
  by (induction pl earlier arbitrary: rs rule: parseRovers.induct) (auto split: sum.splits)

lemma parseLines_checked:
  assumes "even (length rest)" and "rest \<noteq> []"
  shows "parseLines (l # rest) =
    (case parsePlateau l of
       Inl e \<Rightarrow> Inl e
     | Inr pl \<Rightarrow> (case parseRovers pl rest of
                   Inl e \<Rightarrow> Inl e
                 | Inr rs \<Rightarrow> Inr \<lparr>plateau = pl, rovers = rs\<rparr>))"
proof -
  from assms have "2 \<le> length rest" by (cases rest; cases "tl rest") auto
  with assms(1) show ?thesis by (simp add: parseLines_def split: sum.splits)
qed

subsection \<open>The starting position\<close>

lemma parsePosition_fields:
  assumes "split_ws positionLine = [a, b, d]"
    and "parseInteger a ''x coordinate'' = Inr px"
    and "parseInteger b ''y coordinate'' = Inr py"
    and "map_of VALID_DIRECTIONS (toUpperCase d) = Some dir"
  shows "parsePosition positionLine pl =
    (if px < 0 \<or> px > maxX pl \<or> py < 0 \<or> py > maxY pl
     then Inl (OutsidePlateau px py (maxX pl) (maxY pl))
     else Inr \<lparr>position = \<lparr>x = px, y = py\<rparr>, direction = dir\<rparr>)"
  using assms by (simp add: parsePosition_def)

text \<open>
  C7. For a position line that tokenizes into three fields with valid integer coordinates
  \<open>(px, py)\<close> and a valid direction letter, in an input whose plateau line and earlier
  rovers are valid, \<open>parseInput\<close> fails with the \<open>starting position outside plateau bounds\<close>
  error, carrying the point and the bounds, exactly when \<open>px < 0\<close>, \<open>px > maxX\<close>, \<open>py < 0\<close>
  or \<open>py > maxY\<close>; a position on the boundary is accepted by \<open>parsePosition\<close>.
\<close>

theorem starting_position_outside_plateau:
  assumes "inputLines input = plateauLine # earlier @ positionLine # commandsLine # later"
    and "even (length later)"
    and "parsePlateau plateauLine = Inr pl"
    and "parseRovers pl earlier = Inr rs"
    and "split_ws positionLine = [a, b, d]"
    and "parseInteger a ''x coordinate'' = Inr px"
    and "parseInteger b ''y coordinate'' = Inr py"
    and "map_of VALID_DIRECTIONS (toUpperCase d) = Some dir"
  shows "(parseInput input = Inl (OutsidePlateau px py (maxX pl) (maxY pl))
            \<longleftrightarrow> px < 0 \<or> px > maxX pl \<or> py < 0 \<or> py > maxY pl)
       \<and> parsePosition positionLine pl =
           (if px < 0 \<or> px > maxX pl \<or> py < 0 \<or> py > maxY pl
            then Inl (OutsidePlateau px py (maxX pl) (maxY pl))
            else Inr \<lparr>position = \<lparr>x = px, y = py\<rparr>, direction = dir\<rparr>)"
proof -
  let ?out = "px < 0 \<or> px > maxX pl \<or> py < 0 \<or> py > maxY pl"
  let ?rest = "earlier @ positionLine # commandsLine # later"
  note pos = parsePosition_fields [OF assms(5-8), of pl]
  from parseRovers_length [OF assms(4)] assms(2) have ev: "even (length ?rest)" by simp
  have "parseInput input =
      (case parseRovers pl ?rest of Inl e \<Rightarrow> Inl e | Inr rs \<Rightarrow> Inr \<lparr>plateau = pl, rovers = rs\<rparr>)"
    using parseLines_checked [OF ev, of plateauLine] assms(1,3) by (simp add: parseInput_def)
  also have "parseRovers pl ?rest =
      (case parseRovers pl (positionLine # commandsLine # later) of
         Inl e \<Rightarrow> Inl e | Inr rs' \<Rightarrow> Inr (rs @ rs'))"
    by (rule parseRovers_append [OF assms(4)])
  finally have pi: "parseInput input =
      (case parseRovers pl (positionLine # commandsLine # later) of
         Inl e \<Rightarrow> Inl e | Inr rs' \<Rightarrow> Inr \<lparr>plateau = pl, rovers = rs @ rs'\<rparr>)"
    by (simp split: sum.splits)
  have "parseInput input = Inl (OutsidePlateau px py (maxX pl) (maxY pl)) \<longleftrightarrow> ?out"
  proof
    assume "?out"
    with pos pi show "parseInput input = Inl (OutsidePlateau px py (maxX pl) (maxY pl))"
      by simp
  next
    assume "parseInput input = Inl (OutsidePlateau px py (maxX pl) (maxY pl))"
    with pi have "parseRovers pl (positionLine # commandsLine # later)
        = Inl (OutsidePlateau px py (maxX pl) (maxY pl))"
      by (simp split: sum.splits)
    from parseRovers_Inl [OF this] show "?out" by simp
  qed
  with pos show ?thesis by simp
qed

theorem starting_position_outside_plateau_witness:
  "inputLines ''5 5\<newline>6 2 N\<newline>M'' = ''5 5'' # [] @ ''6 2 N'' # ''M'' # []
   \<and> parsePlateau ''5 5'' = Inr \<lparr>maxX = 5, maxY = 5\<rparr>
   \<and> split_ws ''6 2 N'' = [''6'', ''2'', ''N'']
   \<and> parseInteger ''6'' ''x coordinate'' = Inr 6
   \<and> parseInteger ''2'' ''y coordinate'' = Inr 2
   \<and> map_of VALID_DIRECTIONS (toUpperCase ''N'') = Some N
   \<and> parseInput ''5 5\<newline>6 2 N\<newline>M'' = Inl (OutsidePlateau 6 2 5 5)
   \<and> parsePosition ''5 5 N'' \<lparr>maxX = 5, maxY = 5\<rparr>
       = Inr \<lparr>position = \<lparr>x = 5, y = 5\<rparr>, direction = N\<rparr>"
proof -
  have h1: "inputLines ''5 5\<newline>6 2 N\<newline>M'' = ''5 5'' # [] @ ''6 2 N'' # ''M'' # []"
    by code_simp
  have h2: "even (length ([] :: string list))" by simp
  have h3: "parsePlateau ''5 5'' = Inr \<lparr>maxX = 5, maxY = 5\<rparr>" by code_simp
  have h4: "parseRovers \<lparr>maxX = 5, maxY = 5\<rparr> [] = Inr []" by simp
  have h5: "split_ws ''6 2 N'' = [''6'', ''2'', ''N'']" by code_simp
  have h6: "parseInteger ''6'' ''x coordinate'' = Inr 6" by code_simp
  have h7: "parseInteger ''2'' ''y coordinate'' = Inr 2" by code_simp
  have h8: "map_of VALID_DIRECTIONS (toUpperCase ''N'') = Some N" by code_simp
  from starting_position_outside_plateau [OF h1 h2 h3 h4 h5 h6 h7 h8]
  have out: "parseInput ''5 5\<newline>6 2 N\<newline>M'' = Inl (OutsidePlateau 6 2 5 5)" by simp
  have b1: "inputLines ''5 5\<newline>5 5 N\<newline>L'' = ''5 5'' # [] @ ''5 5 N'' # ''L'' # []"
    by code_simp
  have b5: "split_ws ''5 5 N'' = [''5'', ''5'', ''N'']" by code_simp
  have b6: "parseInteger ''5'' ''x coordinate'' = Inr 5" by code_simp
  have b7: "parseInteger ''5'' ''y coordinate'' = Inr 5" by code_simp
  from starting_position_outside_plateau [OF b1 h2 h3 h4 b5 b6 b7 h8]
  have on: "parsePosition ''5 5 N'' \<lparr>maxX = 5, maxY = 5\<rparr>
       = Inr \<lparr>position = \<lparr>x = 5, y = 5\<rparr>, direction = N\<rparr>" by simp
  from h1 h3 h5 h6 h7 h8 out on show ?thesis by (intro conjI)
qed

subsection \<open>The structural checks\<close>

lemma parseRovers_even_no_TypeError:
  "even (length ls) \<Longrightarrow> parseRovers pl ls \<noteq> Inl TypeError"
proof (induction pl ls rule: parseRovers.induct)
  case (3 pl positionLine commandsLine rest)
  then show ?case
    by (auto split: sum.splits dest: parsePosition_Inl parseCommands_Inl)
qed simp_all

lemma parseLines_structural:
  "parseLines ls =
     (if length ls < 1 then Inl EmptyInput
      else if length ls < 3 then Inl TooFewLines
      else if (length ls - 1) mod 2 \<noteq> 0 then Inl UnpairedLines
      else (case parsePlateau (hd ls) of
              Inl e \<Rightarrow> Inl e
            | Inr pl \<Rightarrow> (case parseRovers pl (tl ls) of
                          Inl e \<Rightarrow> Inl e
                        | Inr rs \<Rightarrow> Inr \<lparr>plateau = pl, rovers = rs\<rparr>)))"
  by (cases ls) (auto simp: parseLines_def split: sum.splits)

lemma content_errors:
  assumes "(case parsePlateau l of
              Inl e \<Rightarrow> Inl e
            | Inr pl \<Rightarrow> (case parseRovers pl ls of
                          Inl e \<Rightarrow> Inl e
                        | Inr rs \<Rightarrow> Inr \<lparr>plateau = pl, rovers = rs\<rparr>)) = Inl e"
  shows "e \<noteq> EmptyInput \<and> e \<noteq> TooFewLines \<and> e \<noteq> UnpairedLines"
proof (cases "parsePlateau l")
  case (Inl e')
  with assms have "parsePlateau l = Inl e" by simp
  from parsePlateau_Inl [OF this] show ?thesis by auto
next
  case (Inr pl)
  with assms have "parseRovers pl ls = Inl e" by (simp split: sum.splits)
  from parseRovers_Inl [OF this] show ?thesis by auto
qed

text \<open>
  C8. On the trimmed, non-blank lines of the input the structural checks come first and
  in order, whatever the lines contain: no line gives the empty-input error, one or two
  lines give the minimum-shape error, and three or more lines with an odd number of
  lines after the first give the pairing error. The three errors are distinct and come
  from nothing else. A \<open>ParsedInput\<close> is returned only when the plateau line and every
  pair of rover lines has been parsed: it is never partial. After the pairing check the
  loop never reads a missing line.
\<close>

theorem structural_checks_come_first:
  "(parseInput input = Inl EmptyInput \<longleftrightarrow> length (inputLines input) < 1)
   \<and> (parseInput input = Inl TooFewLines
        \<longleftrightarrow> 1 \<le> length (inputLines input) \<and> length (inputLines input) < 3)
   \<and> (parseInput input = Inl UnpairedLines
        \<longleftrightarrow> 3 \<le> length (inputLines input) \<and> (length (inputLines input) - 1) mod 2 \<noteq> 0)
   \<and> (\<forall>parsed. parseInput input = Inr parsed \<longrightarrow>
         length (inputLines input) = 2 * length (rovers parsed) + 1
         \<and> parsePlateau (hd (inputLines input)) = Inr (plateau parsed)
         \<and> parseRovers (plateau parsed) (tl (inputLines input)) = Inr (rovers parsed))
   \<and> parseInput input \<noteq> Inl TypeError"
proof -
  let ?ls = "inputLines input"
  let ?content = "case parsePlateau (hd ?ls) of
              Inl e \<Rightarrow> Inl e
            | Inr pl \<Rightarrow> (case parseRovers pl (tl ?ls) of
                          Inl e \<Rightarrow> Inl e
                        | Inr rs \<Rightarrow> Inr \<lparr>plateau = pl, rovers = rs\<rparr>)"
  note s = parseLines_structural [of ?ls, folded parseInput_def]
  have c: "?content \<noteq> Inl EmptyInput" "?content \<noteq> Inl TooFewLines" "?content \<noteq> Inl UnpairedLines"
    using content_errors [where l = "hd ?ls" and ls = "tl ?ls"] by blast+
  have 1: "parseInput input = Inl EmptyInput \<longleftrightarrow> length ?ls < 1"
    using c by (simp add: s)
  have 2: "parseInput input = Inl TooFewLines \<longleftrightarrow> 1 \<le> length ?ls \<and> length ?ls < 3"
    using c by (auto simp: s Suc_le_eq)
  have 3: "parseInput input = Inl UnpairedLines
      \<longleftrightarrow> 3 \<le> length ?ls \<and> (length ?ls - 1) mod 2 \<noteq> 0"
    using c by (auto simp: s)
  have 4: "length ?ls = 2 * length (rovers parsed) + 1
         \<and> parsePlateau (hd ?ls) = Inr (plateau parsed)
         \<and> parseRovers (plateau parsed) (tl ?ls) = Inr (rovers parsed)"
    if ok: "parseInput input = Inr parsed" for parsed
  proof -
    from ok have ne: "?ls \<noteq> []" and eq: "?content = Inr parsed"
      by (auto simp: s split: if_splits)
    from eq have p: "parsePlateau (hd ?ls) = Inr (plateau parsed)"
      and r: "parseRovers (plateau parsed) (tl ?ls) = Inr (rovers parsed)"
      by (auto split: sum.splits)
    from parseRovers_length [OF r] ne have "length ?ls = 2 * length (rovers parsed) + 1"
      by (cases ?ls) simp_all
    with p r show ?thesis by simp
  qed
  have 5: "parseInput input \<noteq> Inl TypeError"
  proof
    assume t: "parseInput input = Inl TypeError"
    then have ev: "even (length (tl ?ls))" and eq: "?content = Inl TypeError"
      by (auto simp: s split: if_splits)
    show False
    proof (cases "parsePlateau (hd ?ls)")
      case (Inl e)
      with eq have "parsePlateau (hd ?ls) = Inl TypeError" by simp
      from parsePlateau_Inl [OF this] show False by simp
    next
      case (Inr pl)
      with eq have "parseRovers pl (tl ?ls) = Inl TypeError" by (simp split: sum.splits)
      with parseRovers_even_no_TypeError [OF ev] show False by simp
    qed
  qed
  from 1 2 3 4 5 show ?thesis by blast
qed

theorem structural_checks_come_first_witness:
  "parseInput '' \<newline> '' = Inl EmptyInput
   \<and> parseInput ''5 5\<newline>1 2 N'' = Inl TooFewLines
   \<and> parseInput ''5 5\<newline>1 2 N\<newline>LMLM\<newline>3 3 E'' = Inl UnpairedLines
   \<and> parseInput ''a\<newline>b\<newline>c\<newline>d'' = Inl UnpairedLines
   \<and> parseInput ''0 0\<newline>0 0 N\<newline>L''
       = Inr \<lparr>plateau = \<lparr>maxX = 0, maxY = 0\<rparr>,
              rovers = [\<lparr>start = \<lparr>position = \<lparr>x = 0, y = 0\<rparr>, direction = N\<rparr>, commands = ''L''\<rparr>]\<rparr>
   \<and> length (inputLines ''0 0\<newline>0 0 N\<newline>L'') = 2 * length [''L''] + 1"
proof -
  have l: "inputLines '' \<newline> '' = []" "inputLines ''5 5\<newline>1 2 N'' = [''5 5'', ''1 2 N'']"
    "inputLines ''5 5\<newline>1 2 N\<newline>LMLM\<newline>3 3 E'' = [''5 5'', ''1 2 N'', ''LMLM'', ''3 3 E'']"
    "inputLines ''a\<newline>b\<newline>c\<newline>d'' = [''a'', ''b'', ''c'', ''d'']"
    by code_simp+
  have ok: "parseInput ''0 0\<newline>0 0 N\<newline>L''
       = Inr \<lparr>plateau = \<lparr>maxX = 0, maxY = 0\<rparr>,
              rovers = [\<lparr>start = \<lparr>position = \<lparr>x = 0, y = 0\<rparr>, direction = N\<rparr>, commands = ''L''\<rparr>]\<rparr>"
    by code_simp
  have 1: "parseInput '' \<newline> '' = Inl EmptyInput"
    using structural_checks_come_first [of "'' \<newline> ''"] by (simp add: l)
  have 2: "parseInput ''5 5\<newline>1 2 N'' = Inl TooFewLines"
    using structural_checks_come_first [of "''5 5\<newline>1 2 N''"] by (simp add: l)
  have 3: "parseInput ''5 5\<newline>1 2 N\<newline>LMLM\<newline>3 3 E'' = Inl UnpairedLines"
    using structural_checks_come_first [of "''5 5\<newline>1 2 N\<newline>LMLM\<newline>3 3 E''"]
    by (simp add: l)
  have 4: "parseInput ''a\<newline>b\<newline>c\<newline>d'' = Inl UnpairedLines"
    using structural_checks_come_first [of "''a\<newline>b\<newline>c\<newline>d''"] by (simp add: l)
  have 5: "length (inputLines ''0 0\<newline>0 0 N\<newline>L'') = 2 * length [''L''] + 1"
    using structural_checks_come_first [of "''0 0\<newline>0 0 N\<newline>L''"] ok by simp
  from 1 2 3 4 5 ok show ?thesis by blast
qed

subsection \<open>The sample run\<close>

text \<open>
  C6. Scenario A: the input \<open>5 5\<close>, \<open>1 2 N\<close>, \<open>LMLMLMLMM\<close>, \<open>3 3 E\<close>, \<open>MMRMMRMRRM\<close> parses
  into a plateau and two rovers in input order; running each on the plateau and
  formatting the final states gives \<open>1 3 N\<close> and \<open>5 1 E\<close>, one line per rover, separated
  by single spaces, with no trailing line feed.
\<close>

theorem scenario_A:
  "parseInput ''5 5\<newline>1 2 N\<newline>LMLMLMLMM\<newline>3 3 E\<newline>MMRMMRMRRM''
     = Inr \<lparr>plateau = \<lparr>maxX = 5, maxY = 5\<rparr>,
            rovers = [\<lparr>start = \<lparr>position = \<lparr>x = 1, y = 2\<rparr>, direction = N\<rparr>, commands = ''LMLMLMLMM''\<rparr>,
                      \<lparr>start = \<lparr>position = \<lparr>x = 3, y = 3\<rparr>, direction = E\<rparr>, commands = ''MMRMMRMRRM''\<rparr>]\<rparr>
   \<and> executeCommands \<lparr>position = \<lparr>x = 1, y = 2\<rparr>, direction = N\<rparr> ''LMLMLMLMM'' \<lparr>maxX = 5, maxY = 5\<rparr>
       = Inr \<lparr>position = \<lparr>x = 1, y = 3\<rparr>, direction = N\<rparr>
   \<and> executeCommands \<lparr>position = \<lparr>x = 3, y = 3\<rparr>, direction = E\<rparr> ''MMRMMRMRRM'' \<lparr>maxX = 5, maxY = 5\<rparr>
       = Inr \<lparr>position = \<lparr>x = 5, y = 1\<rparr>, direction = E\<rparr>
   \<and> formatOutput [\<lparr>position = \<lparr>x = 1, y = 3\<rparr>, direction = N\<rparr>,
                    \<lparr>position = \<lparr>x = 5, y = 1\<rparr>, direction = E\<rparr>] = ''1 3 N\<newline>5 1 E''
   \<and> runSimulation ''5 5\<newline>1 2 N\<newline>LMLMLMLMM\<newline>3 3 E\<newline>MMRMMRMRRM'' = Inr ''1 3 N\<newline>5 1 E''"
proof -
  let ?pl = "\<lparr>maxX = 5, maxY = 5\<rparr>"
  let ?r1 = "\<lparr>position = \<lparr>x = 1, y = 2\<rparr>, direction = N\<rparr>"
  let ?r2 = "\<lparr>position = \<lparr>x = 3, y = 3\<rparr>, direction = E\<rparr>"
  let ?f1 = "\<lparr>position = \<lparr>x = 1, y = 3\<rparr>, direction = N\<rparr>"
  let ?f2 = "\<lparr>position = \<lparr>x = 5, y = 1\<rparr>, direction = E\<rparr>"
  have parsed: "parseInput ''5 5\<newline>1 2 N\<newline>LMLMLMLMM\<newline>3 3 E\<newline>MMRMMRMRRM''
     = Inr \<lparr>plateau = ?pl,
            rovers = [\<lparr>start = ?r1, commands = ''LMLMLMLMM''\<rparr>,
                      \<lparr>start = ?r2, commands = ''MMRMMRMRRM''\<rparr>]\<rparr>"
    by code_simp
  have run1: "executeCommands ?r1 ''LMLMLMLMM'' ?pl = Inr ?f1"
    by (simp add: executeCommands_def step_def DELTAS_def DIRECTIONS_def)
  have run2: "executeCommands ?r2 ''MMRMMRMRRM'' ?pl = Inr ?f2"
    by (simp add: executeCommands_def step_def DELTAS_def DIRECTIONS_def)
  have out: "formatOutput [?f1, ?f2] = ''1 3 N\<newline>5 1 E''"
    by code_simp
  have "runSimulation ''5 5\<newline>1 2 N\<newline>LMLMLMLMM\<newline>3 3 E\<newline>MMRMMRMRRM'' = Inr ''1 3 N\<newline>5 1 E''"
    by (simp add: runSimulation_def parsed run1 run2 out)
  with parsed run1 run2 out show ?thesis by (intro conjI)
qed

subsection \<open>Blank lines\<close>

lemma split_from_hd_tl:
  "split_from sep piece s = (rev piece @ hd (split sep s)) # tl (split sep s)"
proof (induction s arbitrary: piece)
  case Nil
  show ?case by (simp add: split_def)
next
  case (Cons c cs)
  show ?case
  proof (cases "c = sep")
    case True
    then show ?thesis by (simp add: split_def)
  next
    case False
    have "split_from sep (c # piece) cs = (rev (c # piece) @ hd (split sep cs)) # tl (split sep cs)"
      by (rule Cons.IH)
    moreover have "split_from sep [c] cs = (rev [c] @ hd (split sep cs)) # tl (split sep cs)"
      by (rule Cons.IH)
    ultimately show ?thesis using False by (simp add: split_def)
  qed
qed

lemma split_Nil: "split sep [] = [[]]"
  by (simp add: split_def)

lemma split_Cons:
  "split sep (c # cs) =
     (if c = sep then [] # split sep cs else (c # hd (split sep cs)) # tl (split sep cs))"
  using split_from_hd_tl [of sep "[c]" cs] by (simp add: split_def)

lemma split_not_Nil: "split sep s \<noteq> []"
  by (cases s) (simp_all add: split_Nil split_Cons)

lemma split_append:
  "split sep (u @ v) =
     butlast (split sep u) @ [last (split sep u) @ hd (split sep v)] @ tl (split sep v)"
proof (induction u)
  case Nil
  then show ?case using split_not_Nil [of sep v] by (simp add: split_Nil)
next
  case (Cons c u)
  show ?case
  proof (cases "split sep u")
    case Nil
    with split_not_Nil show ?thesis by blast
  next
    case (Cons p ps)
    with Cons.IH show ?thesis
      by (cases ps) (simp_all add: split_Cons)
  qed
qed

lemma split_sep_between: "split sep (u @ sep # v) = split sep u @ split sep v"
  using split_not_Nil [of sep u]
  by (simp add: split_append [of sep u] split_Cons)

lemma split_no_sep: "sep \<notin> set s \<Longrightarrow> split sep s = [s]"
  by (induction s) (auto simp: split_Nil split_Cons)

lemma split_pieces: "p \<in> set (split sep s) \<Longrightarrow> set p \<subseteq> set s"
proof (induction s arbitrary: p)
  case Nil
  then show ?case by (simp add: split_Nil)
next
  case (Cons c cs)
  obtain q qs where q: "split sep cs = q # qs"
    using split_not_Nil [of sep cs] by (cases "split sep cs") auto
  have 1: "set q \<subseteq> set cs" by (rule Cons.IH) (simp add: q)
  have 2: "set r \<subseteq> set cs" if "r \<in> set qs" for r
    by (rule Cons.IH) (simp add: q that)
  from Cons.prems have "p = [] \<or> p = c # q \<or> p \<in> set (q # qs)"
    by (auto simp: split_Cons q split: if_splits)
  with 1 2 show ?case by auto
qed

lemma trim_whitespace:
  assumes "list_all isWhiteSpace w"
  shows "trim w = []"
proof -
  from assms have d: "dropWhile isWhiteSpace w = []"
    by (simp add: list_all_iff dropWhile_eq_Nil_conv)
  show ?thesis unfolding trim_def d by simp
qed

lemma trim_whitespace_prefix: "list_all isWhiteSpace w \<Longrightarrow> trim (w @ s) = trim s"
  by (induction w) (simp_all add: trim_def)

lemma trim_whitespace_suffix:
  assumes "list_all isWhiteSpace w"
  shows "trim (s @ w) = trim s"
proof (cases "list_all isWhiteSpace s")
  case True
  with assms have "list_all isWhiteSpace (s @ w)" by simp
  then have "trim (s @ w) = []" by (rule trim_whitespace)
  with True show ?thesis by (simp add: trim_whitespace)
next
  case False
  then have d: "dropWhile isWhiteSpace (s @ w) = dropWhile isWhiteSpace s @ w"
    by (induction s) simp_all
  from False have ne: "dropWhile isWhiteSpace s \<noteq> []"
    by (simp add: list_all_iff dropWhile_eq_Nil_conv)
  have "dropWhile isWhiteSpace (rev w @ t) = dropWhile isWhiteSpace t" for t
    using assms by (induction w arbitrary: t rule: rev_induct) simp_all
  then have "dropWhile isWhiteSpace (rev (t @ w)) = dropWhile isWhiteSpace (rev t)" for t
    by simp
  with d show ?thesis by (simp only: trim_def)
qed

lemma trim_decompose:
  "\<exists>pre post. list_all isWhiteSpace pre \<and> list_all isWhiteSpace post \<and> s = pre @ trim s @ post"
proof -
  let ?t = "dropWhile isWhiteSpace s"
  have 1: "s = takeWhile isWhiteSpace s @ ?t" by simp
  have 2: "?t = trim s @ rev (takeWhile isWhiteSpace (rev ?t))"
    unfolding trim_def by (metis rev_append rev_rev_ident takeWhile_dropWhile_id)
  have 3: "list_all isWhiteSpace (takeWhile isWhiteSpace s)"
    "list_all isWhiteSpace (rev (takeWhile isWhiteSpace (rev ?t)))"
    by (auto simp: list_all_iff dest: set_takeWhileD)
  from 1 2 have "s = takeWhile isWhiteSpace s @ trim s @ rev (takeWhile isWhiteSpace (rev ?t))"
    by simp
  with 3 show ?thesis by blast
qed

text \<open>The trimmed, non-blank lines of a text.\<close>

lemma lines_whitespace:
  assumes "list_all isWhiteSpace w"
  shows "filter (\<lambda>line. length line > 0) (map trim (split sep w)) = []"
proof -
  have "trim p = []" if "p \<in> set (split sep w)" for p
  proof -
    from split_pieces [OF that] assms have "list_all isWhiteSpace p"
      by (auto simp: list_all_iff)
    then show ?thesis by (rule trim_whitespace)
  qed
  then show ?thesis by (auto simp: filter_empty_conv)
qed

lemma lines_whitespace_prefix:
  assumes "list_all isWhiteSpace w"
  shows "filter (\<lambda>line. length line > 0) (map trim (split sep (w @ s)))
       = filter (\<lambda>line. length line > 0) (map trim (split sep s))"
proof -
  let ?F = "\<lambda>ls. filter (\<lambda>line. length line > 0) (map trim ls)"
  obtain q qs where q: "split sep s = q # qs"
    using split_not_Nil [of sep s] by (cases "split sep s") auto
  have "set (butlast (split sep w)) \<subseteq> set (split sep w)"
    by (auto dest: in_set_butlastD)
  with split_pieces [of _ sep w] assms
  have "trim p = []" if "p \<in> set (butlast (split sep w))" for p
    using that by (intro trim_whitespace) (auto simp: list_all_iff)
  then have b: "?F (butlast (split sep w)) = []" by (auto simp: filter_empty_conv)
  have "last (split sep w) \<in> set (split sep w)" using split_not_Nil by simp
  with split_pieces [of _ sep w] assms have "list_all isWhiteSpace (last (split sep w))"
    by (auto simp: list_all_iff)
  then have l: "trim (last (split sep w) @ q) = trim q" by (rule trim_whitespace_prefix)
  show ?thesis using b l by (simp add: split_append [of sep w s] q)
qed

lemma lines_whitespace_suffix:
  assumes "list_all isWhiteSpace w"
  shows "filter (\<lambda>line. length line > 0) (map trim (split sep (s @ w)))
       = filter (\<lambda>line. length line > 0) (map trim (split sep s))"
proof -
  let ?F = "\<lambda>ls. filter (\<lambda>line. length line > 0) (map trim ls)"
  obtain q qs where q: "split sep w = q # qs"
    using split_not_Nil [of sep w] by (cases "split sep w") auto
  from split_pieces [of _ sep w] assms q
  have wq: "list_all isWhiteSpace q" and "\<And>p. p \<in> set qs \<Longrightarrow> list_all isWhiteSpace p"
    by (auto simp: list_all_iff)
  then have b: "?F qs = []" by (auto simp: filter_empty_conv trim_whitespace)
  have l: "trim (last (split sep s) @ q) = trim (last (split sep s))"
    using wq by (rule trim_whitespace_suffix)
  have "split sep s = butlast (split sep s) @ [last (split sep s)]"
    using split_not_Nil [of sep s] by simp
  then have "?F (split sep s) = ?F (butlast (split sep s)) @ ?F [last (split sep s)]"
    by (metis filter_append map_append)
  then show ?thesis using b l by (simp add: split_append [of sep s w] q)
qed

lemma inputLines_untrimmed:
  "inputLines input = filter (\<lambda>line. length line > 0) (map trim (split (CHR 0x0A) input))"
proof -
  obtain pre post where w: "list_all isWhiteSpace pre" "list_all isWhiteSpace post"
    and i: "input = pre @ trim input @ post"
    using trim_decompose [of input] by blast
  have "filter (\<lambda>line. length line > 0) (map trim (split (CHR 0x0A) (pre @ trim input @ post)))
      = filter (\<lambda>line. length line > 0) (map trim (split (CHR 0x0A) (trim input)))"
    using lines_whitespace_prefix [OF w(1)] lines_whitespace_suffix [OF w(2)] by simp
  with i show ?thesis by (simp add: inputLines_def)
qed

lemma inputLines_between:
  "inputLines (u @ CHR 0x0A # v) = inputLines u @ inputLines v"
  by (simp add: inputLines_untrimmed split_sep_between)

lemma inputLines_blank: "list_all isWhiteSpace w \<Longrightarrow> inputLines w = []"
  using lines_whitespace [of w "CHR 0x0A"] by (simp add: inputLines_untrimmed)

lemma inputLines_one_line:
  "CHR 0x0A \<notin> set l \<Longrightarrow> trim l \<noteq> [] \<Longrightarrow> inputLines l = [trim l]"
  by (simp add: inputLines_untrimmed split_no_sep)

lemma whitespace_is_no_command:
  assumes "isWhiteSpace c"
  shows "\<not> VALID_COMMANDS (toUpperCase (c # cs))"
proof -
  from assms consider "c = CHR 0x09" | "c = CHR 0x0A" | "c = CHR 0x0B" | "c = CHR 0x0C"
    | "c = CHR 0x0D" | "c = CHR 0x20"
    by (auto simp: isWhiteSpace_def)
  then show ?thesis
    by cases (simp_all add: toUpperCase_def VALID_COMMANDS_def)
qed

lemma parseCommands_blank:
  assumes "list_all isWhiteSpace w"
  shows "parseCommands w = Inl (InvalidCommands w)"
proof (cases w)
  case Nil
  then show ?thesis by (simp add: parseCommands_def toUpperCase_def VALID_COMMANDS_def)
next
  case (Cons c cs)
  with assms have "isWhiteSpace c" by simp
  from whitespace_is_no_command [OF this, of cs] Cons show ?thesis
    by (simp add: parseCommands_def)
qed

lemma parseCommands_Inr: "parseCommands l = Inr cmds \<Longrightarrow> VALID_COMMANDS cmds"
  by (auto simp: parseCommands_def Let_def split: if_splits)

lemma parseRovers_commands:
  "parseRovers pl ls = Inr rs \<Longrightarrow> list_all (\<lambda>r. VALID_COMMANDS (commands r)) rs"
  by (induction pl ls arbitrary: rs rule: parseRovers.induct)
    (auto split: sum.splits dest: parseCommands_Inr)



text \<open>
  C3, as amended. A commands line that is empty or consists only of white space is
  discarded with the other blank lines before any check, so \<open>parseInput\<close> treats the
  input as if the line were absent. When the plateau line and the position line of a
  single rover are followed by such a line, it fails with the minimum-shape error. The
  pattern check itself rejects an empty or blank string with the invalid-commands error,
  and every command string of a successful parse is non-empty over \<open>L\<close>, \<open>R\<close>, \<open>M\<close>.
\<close>

theorem blank_commands_line_is_discarded:
  assumes "list_all isWhiteSpace blank"
  shows "parseInput (before @ CHR 0x0A # blank @ CHR 0x0A # after)
           = parseInput (before @ CHR 0x0A # after)
       \<and> parseInput (before @ CHR 0x0A # blank) = parseInput before
       \<and> (CHR 0x0A \<notin> set plateauLine \<and> trim plateauLine \<noteq> []
            \<and> CHR 0x0A \<notin> set positionLine \<and> trim positionLine \<noteq> []
          \<longrightarrow> parseInput (plateauLine @ CHR 0x0A # positionLine @ CHR 0x0A # blank)
                = Inl TooFewLines)
       \<and> parseCommands blank = Inl (InvalidCommands blank)
       \<and> (\<forall>parsed. parseInput input = Inr parsed
            \<longrightarrow> list_all (\<lambda>r. VALID_COMMANDS (commands r)) (rovers parsed))"
proof -
  note b = inputLines_blank [OF assms]
  have 1: "parseInput (before @ CHR 0x0A # blank @ CHR 0x0A # after)
           = parseInput (before @ CHR 0x0A # after)"
    by (simp add: parseInput_def inputLines_between b)
  have 2: "parseInput (before @ CHR 0x0A # blank) = parseInput before"
    by (simp add: parseInput_def inputLines_between b)
  have 3: "parseInput (plateauLine @ CHR 0x0A # positionLine @ CHR 0x0A # blank) = Inl TooFewLines"
    if "CHR 0x0A \<notin> set plateauLine \<and> trim plateauLine \<noteq> []
            \<and> CHR 0x0A \<notin> set positionLine \<and> trim positionLine \<noteq> []"
    using that
    by (simp add: parseInput_def inputLines_between b inputLines_one_line parseLines_def)
  have 4: "parseCommands blank = Inl (InvalidCommands blank)"
    by (rule parseCommands_blank [OF assms])
  have 5: "list_all (\<lambda>r. VALID_COMMANDS (commands r)) (rovers parsed)"
    if "parseInput input = Inr parsed" for parsed
  proof -
    from that have "parseRovers (plateau parsed) (tl (inputLines input)) = Inr (rovers parsed)"
      by (auto simp: parseInput_def parseLines_structural split: if_splits sum.splits)
    then show ?thesis by (rule parseRovers_commands)
  qed
  from 1 2 3 4 5 show ?thesis by blast
qed

theorem blank_commands_line_is_discarded_witness:
  "list_all isWhiteSpace ''   ''
   \<and> parseInput ''5 5\<newline>1 2 N\<newline>   \<newline>LM'' = parseInput ''5 5\<newline>1 2 N\<newline>LM''
   \<and> parseInput ''5 5\<newline>1 2 N\<newline>   '' = Inl TooFewLines
   \<and> parseCommands ''   '' = Inl (InvalidCommands ''   '')"
proof -
  have w: "list_all isWhiteSpace ''   ''" by code_simp
  have l: "CHR 0x0A \<notin> set ''5 5'' \<and> trim ''5 5'' \<noteq> []
      \<and> CHR 0x0A \<notin> set ''1 2 N'' \<and> trim ''1 2 N'' \<noteq> []" by code_simp
  note t = blank_commands_line_is_discarded
    [OF w, of "''5 5\<newline>1 2 N''" "''LM''" "''5 5''" "''1 2 N''"]
  from t [THEN conjunct1]
  have 1: "parseInput ''5 5\<newline>1 2 N\<newline>   \<newline>LM'' = parseInput ''5 5\<newline>1 2 N\<newline>LM''"
    by simp
  from t [THEN conjunct2, THEN conjunct2, THEN conjunct1] l
  have 3: "parseInput ''5 5\<newline>1 2 N\<newline>   '' = Inl TooFewLines"
    by simp
  from t [THEN conjunct2, THEN conjunct2, THEN conjunct2, THEN conjunct1]
  have 4: "parseCommands ''   '' = Inl (InvalidCommands ''   '')" .
  from w 1 3 4 show ?thesis by (intro conjI)
qed

text \<open>
  The claim as stated fails: with a valid plateau line and a valid position line, a blank
  commands line gives the minimum-shape error for one rover, and the pairing error when
  another rover follows.
\<close>

theorem blank_commands_line_counterexample:
  "parsePlateau ''5 5'' = Inr \<lparr>maxX = 5, maxY = 5\<rparr>
   \<and> parsePosition ''1 2 N'' \<lparr>maxX = 5, maxY = 5\<rparr>
       = Inr \<lparr>position = \<lparr>x = 1, y = 2\<rparr>, direction = N\<rparr>
   \<and> list_all isWhiteSpace ''   ''
   \<and> parseInput ''5 5\<newline>1 2 N\<newline>   '' = Inl TooFewLines
   \<and> parseInput ''5 5\<newline>1 2 N\<newline>   '' \<noteq> Inl (InvalidCommands ''   '')
   \<and> parseInput ''5 5\<newline>1 2 N\<newline>\<newline>3 3 E\<newline>M'' = Inl UnpairedLines"
proof -
  have 1: "parsePlateau ''5 5'' = Inr \<lparr>maxX = 5, maxY = 5\<rparr>" by code_simp
  have 2: "parsePosition ''1 2 N'' \<lparr>maxX = 5, maxY = 5\<rparr>
       = Inr \<lparr>position = \<lparr>x = 1, y = 2\<rparr>, direction = N\<rparr>" by code_simp
  have 3: "list_all isWhiteSpace ''   ''" by code_simp
  have 4: "parseInput ''5 5\<newline>1 2 N\<newline>   '' = Inl TooFewLines" by code_simp
  then have 5: "parseInput ''5 5\<newline>1 2 N\<newline>   '' \<noteq> Inl (InvalidCommands ''   '')" by simp
  have 6: "parseInput ''5 5\<newline>1 2 N\<newline>\<newline>3 3 E\<newline>M'' = Inl UnpairedLines" by code_simp
  from 1 2 3 4 5 6 show ?thesis by (intro conjI)
qed

end
